theory Spec2Isabelle
  imports Complex_Main
begin

section \<open>The number type of the source\<close>

text \<open>
  The source is TypeScript: every numeric value is a \<^verbatim>\<open>number\<close>, an IEEE 754 binary64
  value. A \<open>number\<close> of the model is a finite value \<open>Val x\<close>, where \<open>x\<close> is the real number
  the double denotes, or one of the three special values NaN, +Infinity, -Infinity.

  Every arithmetic operation computes the exact real result and rounds it to the nearest
  double, ties to the even significand, as the language prescribes: 53 significant bits,
  subnormal numbers down to \<open>2 powi - 1074\<close>, and the infinity of the same sign when the
  rounded magnitude reaches \<open>2 ^ 1024\<close>. The one simplification is that zero has no sign: a
  division of a non-zero number by zero gives the infinity with the sign of the dividend,
  and zero divided by zero gives NaN.
\<close>

datatype number = Val real | NaN | PosInf | NegInf

subsection \<open>Rounding\<close>

text \<open>The number of binary digits of a natural number.\<close>

fun bits :: "nat \<Rightarrow> nat" where
  "bits n = (if n = 0 then 0 else Suc (bits (n div 2)))"

declare bits.simps [simp del]

text \<open>For \<open>x > 0\<close>, the integer \<open>e\<close> with \<open>2 powi e \<le> x < 2 powi (e + 1)\<close>.\<close>

definition ilog2 :: "real \<Rightarrow> int" where
  "ilog2 x = (if 1 \<le> x then int (bits (nat \<lfloor>x\<rfloor>)) - 1 else - int (bits (nat \<lceil>1 / x\<rceil> - 1)))"

text \<open>The nearest integer, the even one of two.\<close>

definition roundEven :: "real \<Rightarrow> int" where
  "roundEven q =
     (let f = \<lfloor>q\<rfloor>; d = q - of_int f
      in if d < 1 / 2 then f else if 1 / 2 < d then f + 1 else if even f then f else f + 1)"

text \<open>
  The exponent of the last bit of the significand of \<open>x\<close>: 52 places below the leading
  bit, and never below the exponent of the subnormal numbers.
\<close>

definition ulpExponent :: "real \<Rightarrow> int" where
  "ulpExponent x = max (ilog2 \<bar>x\<bar> - 52) (- 1074)"

definition nearest64 :: "real \<Rightarrow> real" where
  "nearest64 x =
     (if x = 0 then 0
      else sgn x * (of_int (roundEven (\<bar>x\<bar> / 2 powi ulpExponent x)) * 2 powi ulpExponent x))"

definition round64 :: "real \<Rightarrow> number" where
  "round64 x =
     (let y = nearest64 x
      in if 2 ^ 1024 \<le> \<bar>y\<bar> then (if 0 < x then PosInf else NegInf) else Val y)"

subsection \<open>Arithmetic\<close>

instantiation number :: "{plus, minus, uminus, times, inverse}"
begin

fun plus_number :: "number \<Rightarrow> number \<Rightarrow> number" where
  "plus_number (Val a) (Val b) = round64 (a + b)"
| "plus_number NaN _ = NaN"
| "plus_number _ NaN = NaN"
| "plus_number PosInf NegInf = NaN"
| "plus_number NegInf PosInf = NaN"
| "plus_number PosInf _ = PosInf"
| "plus_number _ PosInf = PosInf"
| "plus_number NegInf _ = NegInf"
| "plus_number _ NegInf = NegInf"

fun uminus_number :: "number \<Rightarrow> number" where
  "uminus_number (Val a) = Val (- a)"
| "uminus_number NaN = NaN"
| "uminus_number PosInf = NegInf"
| "uminus_number NegInf = PosInf"

definition minus_number :: "number \<Rightarrow> number \<Rightarrow> number" where
  "minus_number a b = a + (- b)"

fun times_number :: "number \<Rightarrow> number \<Rightarrow> number" where
  "times_number (Val a) (Val b) = round64 (a * b)"
| "times_number NaN _ = NaN"
| "times_number _ NaN = NaN"
| "times_number PosInf (Val b) = (if b = 0 then NaN else if 0 < b then PosInf else NegInf)"
| "times_number NegInf (Val b) = (if b = 0 then NaN else if 0 < b then NegInf else PosInf)"
| "times_number (Val a) PosInf = (if a = 0 then NaN else if 0 < a then PosInf else NegInf)"
| "times_number (Val a) NegInf = (if a = 0 then NaN else if 0 < a then NegInf else PosInf)"
| "times_number PosInf PosInf = PosInf"
| "times_number PosInf NegInf = NegInf"
| "times_number NegInf PosInf = NegInf"
| "times_number NegInf NegInf = PosInf"

fun divide_number :: "number \<Rightarrow> number \<Rightarrow> number" where
  "divide_number (Val a) (Val b) =
     (if b \<noteq> 0 then round64 (a / b)
      else if a = 0 then NaN
      else if 0 < a then PosInf else NegInf)"
| "divide_number NaN _ = NaN"
| "divide_number _ NaN = NaN"
| "divide_number (Val a) PosInf = Val 0"
| "divide_number (Val a) NegInf = Val 0"
| "divide_number PosInf (Val b) = (if 0 \<le> b then PosInf else NegInf)"
| "divide_number NegInf (Val b) = (if 0 \<le> b then NegInf else PosInf)"
| "divide_number _ _ = NaN"

definition inverse_number :: "number \<Rightarrow> number" where
  "inverse_number a = divide (Val 1) a"

instance ..

end

text \<open>The comparisons \<^verbatim>\<open><=\<close>, \<^verbatim>\<open>>=\<close>, \<^verbatim>\<open>>\<close> and \<^verbatim>\<open>===\<close>: each is false when an operand is NaN.\<close>

fun num_le :: "number \<Rightarrow> number \<Rightarrow> bool" where
  "num_le (Val a) (Val b) = (a \<le> b)"
| "num_le NaN _ = False"
| "num_le _ NaN = False"
| "num_le NegInf _ = True"
| "num_le _ PosInf = True"
| "num_le _ _ = False"

definition num_ge :: "number \<Rightarrow> number \<Rightarrow> bool" where
  "num_ge a b = num_le b a"

fun strict_eq :: "number \<Rightarrow> number \<Rightarrow> bool" where
  "strict_eq NaN _ = False"
| "strict_eq _ NaN = False"
| "strict_eq a b = (a = b)"

definition num_gt :: "number \<Rightarrow> number \<Rightarrow> bool" where
  "num_gt a b \<longleftrightarrow> num_ge a b \<and> \<not> strict_eq a b"

text \<open>
  \<^verbatim>\<open>Math.abs\<close>, \<^verbatim>\<open>Math.min\<close> of two arguments, \<^verbatim>\<open>Math.sqrt\<close>, and \<^verbatim>\<open>Math.pow(x, 2)\<close>. The
  first two are exact; the square root and the square are rounded like the arithmetic
  operations.
\<close>

fun Math_abs :: "number \<Rightarrow> number" where
  "Math_abs (Val a) = Val \<bar>a\<bar>"
| "Math_abs NaN = NaN"
| "Math_abs PosInf = PosInf"
| "Math_abs NegInf = PosInf"

fun Math_min :: "number \<Rightarrow> number \<Rightarrow> number" where
  "Math_min (Val a) (Val b) = Val (min a b)"
| "Math_min NaN _ = NaN"
| "Math_min _ NaN = NaN"
| "Math_min NegInf _ = NegInf"
| "Math_min _ NegInf = NegInf"
| "Math_min PosInf b = b"
| "Math_min a PosInf = a"

fun Math_sqrt :: "number \<Rightarrow> number" where
  "Math_sqrt (Val a) = (if a < 0 then NaN else round64 (sqrt a))"
| "Math_sqrt NaN = NaN"
| "Math_sqrt PosInf = PosInf"
| "Math_sqrt NegInf = NaN"

fun Math_pow2 :: "number \<Rightarrow> number" where
  "Math_pow2 (Val a) = round64 (a\<^sup>2)"
| "Math_pow2 NaN = NaN"
| "Math_pow2 PosInf = PosInf"
| "Math_pow2 NegInf = PosInf"

section \<open>Data model\<close>

record RegressionResult =
  slope :: number
  intercept :: number
  rSquared :: number
  predictions :: "number list"

datatype Signal = BUY | SELL | HOLD

record RegressionChannelResult =
  regression :: RegressionResult
  upperBand :: "number list"
  lowerBand :: "number list"
  middleLine :: "number list"
  standardDeviation :: number
  currentPrice :: number
  predictedPrice :: number
  signal :: Signal
  signalStrength :: number
  distanceFromUpper :: number
  distanceFromLower :: number
  channelWidth :: number

text \<open>
  The source throws \<^verbatim>\<open>Error\<close> with two messages. \<open>InvalidInput\<close> stands for
  "Invalid input: arrays must have same non-zero length" and \<open>InsufficientData\<close> for
  "Need at least 2 price points for regression analysis".
\<close>

datatype error = InvalidInput | InsufficientData

section \<open>Signal classifier\<close>

text \<open>
  The result object \<^verbatim>\<open>{ signal, strength }\<close> is the pair \<open>(signal, strength)\<close>. The
  literal \<^verbatim>\<open>0.7\<close> is the double nearest to 7 / 10, \<open>round64 0.7\<close>; the literals 2 and 100
  are exact.
\<close>

definition generateSignal :: "number \<Rightarrow> number \<Rightarrow> number \<Rightarrow> number \<Rightarrow> Signal \<times> number" where
  "generateSignal currentPrice' predictedPrice' upperBandValue lowerBandValue =
     (let channelWidth' = upperBandValue - lowerBandValue;
          distanceFromMiddle = currentPrice' - predictedPrice';
          normalizedPosition = distanceFromMiddle / (channelWidth' / Val 2);
          strength = Math_min (Val 100) (Math_abs normalizedPosition * Val 100)
      in if num_le normalizedPosition (- round64 0.7) then (BUY, Math_min (Val 100) strength)
         else if num_ge normalizedPosition (round64 0.7) then (SELL, Math_min (Val 100) strength)
         else (HOLD, Val 100 - strength))"

section \<open>Regressor\<close>

text \<open>
  A \<^verbatim>\<open>for (let i = 0; i < n; i++)\<close> loop is a \<open>fold\<close> over the indices \<open>[0..<n]\<close>; the
  state of the loop is the tuple of the variables it updates. Each loop of the source
  runs after the check that the arrays it reads have length \<open>n\<close>, so every read
  \<open>xs ! i\<close> is in range.

  The body of the first loop of \<^verbatim>\<open>calculateLinearRegression\<close>: the five running sums
  \<open>(sumX, sumY, sumXY, sumX2, sumY2)\<close>.
\<close>

definition sumsStep ::
  "number list \<Rightarrow> number list \<Rightarrow> nat \<Rightarrow>
   number \<times> number \<times> number \<times> number \<times> number \<Rightarrow>
   number \<times> number \<times> number \<times> number \<times> number" where
  "sumsStep xValues yValues i =
     (\<lambda>(sumX, sumY, sumXY, sumX2, sumY2).
        (sumX + xValues ! i,
         sumY + yValues ! i,
         sumXY + xValues ! i * yValues ! i,
         sumX2 + xValues ! i * xValues ! i,
         sumY2 + yValues ! i * yValues ! i))"

text \<open>The body of its second loop: \<open>(ssTotal, ssResidual)\<close>.\<close>

definition ssStep ::
  "number list \<Rightarrow> number \<Rightarrow> number list \<Rightarrow> nat \<Rightarrow> number \<times> number \<Rightarrow> number \<times> number" where
  "ssStep yValues meanY predictions' i =
     (\<lambda>(ssTotal, ssResidual).
        (ssTotal + Math_pow2 (yValues ! i - meanY),
         ssResidual + Math_pow2 (yValues ! i - predictions' ! i)))"

definition calculateLinearRegression :: "number list \<Rightarrow> number list \<Rightarrow> error + RegressionResult" where
  "calculateLinearRegression xValues yValues =
     (let n = length xValues in
      if n = 0 \<or> n \<noteq> length yValues then Inl InvalidInput
      else
        let (sumX, sumY, sumXY, sumX2, sumY2) =
              fold (sumsStep xValues yValues) [0..<n] (Val 0, Val 0, Val 0, Val 0, Val 0);
            slope = (Val (real n) * sumXY - sumX * sumY) / (Val (real n) * sumX2 - sumX * sumX);
            intercept = (sumY - slope * sumX) / Val (real n);
            predictions = map (\<lambda>x. slope * x + intercept) xValues;
            meanY = sumY / Val (real n);
            (ssTotal, ssResidual) = fold (ssStep yValues meanY predictions) [0..<n] (Val 0, Val 0);
            rSquared = (if strict_eq ssTotal (Val 0) then Val 0 else Val 1 - ssResidual / ssTotal)
        in Inr \<lparr>slope = slope, intercept = intercept, rSquared = rSquared,
                 predictions = predictions\<rparr>)"

section \<open>Dispersion estimator\<close>

definition sqDiffStep :: "number list \<Rightarrow> number list \<Rightarrow> nat \<Rightarrow> number \<Rightarrow> number" where
  "sqDiffStep actualValues predictedValues i sumSquaredDifferences =
     (let difference = actualValues ! i - predictedValues ! i
      in sumSquaredDifferences + difference * difference)"

definition calculateStandardDeviation :: "number list \<Rightarrow> number list \<Rightarrow> error + number" where
  "calculateStandardDeviation actualValues predictedValues =
     (let n = length actualValues in
      if n = 0 \<or> n \<noteq> length predictedValues then Inl InvalidInput
      else
        let sumSquaredDifferences = fold (sqDiffStep actualValues predictedValues) [0..<n] (Val 0);
            variance = sumSquaredDifferences / Val (real n);
            standardDeviation = Math_sqrt variance
        in Inr standardDeviation)"

section \<open>Channel builder\<close>

text \<open>
  A parameter with a default value (\<^verbatim>\<open>multiplier: number = 2\<close>) is an \<open>option\<close>:
  \<open>None\<close> is the call that leaves the argument out. The result object
  \<^verbatim>\<open>{ upperBand, lowerBand }\<close> is the pair \<open>(upperBand, lowerBand)\<close>.
\<close>

definition calculateChannelBands ::
  "number list \<Rightarrow> number \<Rightarrow> number option \<Rightarrow> number list \<times> number list" where
  "calculateChannelBands predictions' standardDeviation' multiplier' =
     (let multiplier = (case multiplier' of None \<Rightarrow> Val 2 | Some m \<Rightarrow> m);
          upperBand = map (\<lambda>pred. pred + multiplier * standardDeviation') predictions';
          lowerBand = map (\<lambda>pred. pred - multiplier * standardDeviation') predictions'
      in (upperBand, lowerBand))"

section \<open>Orchestrator\<close>

definition calculateRegressionChannel ::
  "number list \<Rightarrow> number option \<Rightarrow> error + RegressionChannelResult" where
  "calculateRegressionChannel prices stdDevMultiplier' =
     (let stdDevMultiplier = (case stdDevMultiplier' of None \<Rightarrow> Val 2 | Some m \<Rightarrow> m) in
      if length prices < 2 then Inl InsufficientData
      else
        let xValues = map (\<lambda>i. Val (real i)) [0..<length prices] in
        case calculateLinearRegression xValues prices of
          Inl e \<Rightarrow> Inl e
        | Inr regression' \<Rightarrow>
            (case calculateStandardDeviation prices (predictions regression') of
               Inl e \<Rightarrow> Inl e
             | Inr standardDeviation' \<Rightarrow>
                 let (upperBand, lowerBand) =
                       calculateChannelBands (predictions regression') standardDeviation'
                         (Some stdDevMultiplier);
                     lastIndex = length prices - 1;
                     currentPrice = prices ! lastIndex;
                     predictedPrice = predictions regression' ! lastIndex;
                     currentUpperBand = upperBand ! lastIndex;
                     currentLowerBand = lowerBand ! lastIndex;
                     (signal, strength) =
                       generateSignal currentPrice predictedPrice currentUpperBand currentLowerBand;
                     channelWidth = currentUpperBand - currentLowerBand;
                     distanceFromUpper =
                       ((currentUpperBand - currentPrice) / channelWidth) * Val 100;
                     distanceFromLower =
                       ((currentPrice - currentLowerBand) / channelWidth) * Val 100
                 in Inr \<lparr>regression = regression',
                          upperBand = upperBand,
                          lowerBand = lowerBand,
                          middleLine = predictions regression',
                          standardDeviation = standardDeviation',
                          currentPrice = currentPrice,
                          predictedPrice = predictedPrice,
                          signal = signal,
                          signalStrength = strength,
                          distanceFromUpper = distanceFromUpper,
                          distanceFromLower = distanceFromLower,
                          channelWidth = channelWidth\<rparr>))"

section \<open>Equation formatter\<close>

text \<open>
  \<^verbatim>\<open>Number.prototype.toFixed(f)\<close>, as the language standard defines it. A value that is
  not finite is rendered by name. Otherwise the sign is split off, and the magnitude
  \<open>x\<close> is rendered from the integer \<open>n\<close> for which \<open>n / 10 ^ f\<close> is closest to \<open>x\<close> (the
  larger one of two), padded with zeros to at least \<open>f + 1\<close> digits, with a point before
  the last \<open>f\<close> digits.

  At or above \<open>10 ^ 21\<close> the standard switches to the exponent notation of
  \<^verbatim>\<open>Number::toString\<close>, whose digits depend on the binary representation of the value.
  That rendering is the parameter \<open>bigToString\<close> of the model.
\<close>

definition digitChar :: "nat \<Rightarrow> char" where
  "digitChar k = ''0123456789'' ! k"

fun decimalDigits :: "nat \<Rightarrow> string" where
  "decimalDigits n =
     (if n < 10 then [digitChar n] else decimalDigits (n div 10) @ [digitChar (n mod 10)])"

declare decimalDigits.simps [simp del]

definition fixedDigits :: "nat \<Rightarrow> real \<Rightarrow> string" where
  "fixedDigits f x =
     (let n = nat \<lfloor>x * 10 ^ f + 1 / 2\<rfloor>;
          m = decimalDigits n
      in if f = 0 then m
         else
           let m' = (if length m \<le> f then replicate (f + 1 - length m) (CHR ''0'') @ m else m);
               k = length m'
           in take (k - f) m' @ ''.'' @ drop (k - f) m')"

definition toFixed :: "(real \<Rightarrow> string) \<Rightarrow> number \<Rightarrow> nat \<Rightarrow> string" where
  "toFixed bigToString v f =
     (case v of
        NaN \<Rightarrow> ''NaN''
      | PosInf \<Rightarrow> ''Infinity''
      | NegInf \<Rightarrow> ''-Infinity''
      | Val x \<Rightarrow>
          (let s = (if x < 0 then ''-'' else '''');
               x' = (if x < 0 then - x else x)
           in if 10 ^ 21 \<le> x' then s @ bigToString x' else s @ fixedDigits f x'))"

definition formatRegressionEquation :: "(real \<Rightarrow> string) \<Rightarrow> number \<Rightarrow> number \<Rightarrow> string" where
  "formatRegressionEquation bigToString slope' intercept' =
     (let slopeSign = (if num_ge slope' (Val 0) then ''+'' else '''');
          interceptSign = (if num_ge intercept' (Val 0) then ''+'' else '''')
      in ''y = '' @ slopeSign @ toFixed bigToString slope' 4 @ ''x '' @ interceptSign @ '' ''
           @ toFixed bigToString intercept' 2)"

text \<open>
  The format of the specification, \<^verbatim>\<open>"y = {+/-}{slope:.4f}x {+/-}{intercept:.2f}"\<close>:
  each number is a sign character, \<open>+\<close> or \<open>-\<close>, followed at once by its magnitude in
  fixed-point notation.
\<close>

definition specSigned :: "nat \<Rightarrow> real \<Rightarrow> string" where
  "specSigned f v = (if v < 0 then ''-'' else ''+'') @ fixedDigits f \<bar>v\<bar>"

definition specEquation :: "real \<Rightarrow> real \<Rightarrow> string" where
  "specEquation s i = ''y = '' @ specSigned 4 s @ ''x '' @ specSigned 2 i"

text \<open>
  A string has exactly \<open>f\<close> decimal places when it is one or more digits, a point, and \<open>f\<close>
  digits.
\<close>

definition isDigitChar :: "char \<Rightarrow> bool" where
  "isDigitChar ch \<longleftrightarrow> ch \<in> set ''0123456789''"

definition hasDecimals :: "nat \<Rightarrow> string \<Rightarrow> bool" where
  "hasDecimals f str \<longleftrightarrow>
     f + 2 \<le> length str \<and>
     str ! (length str - f - 1) = CHR ''.'' \<and>
     list_all isDigitChar (take (length str - f - 1) str) \<and>
     list_all isDigitChar (drop (length str - f) str)"

section \<open>Sums in the arithmetic of the source\<close>

text \<open>
  The running sum \<open>f 0 + ... + f (n - 1)\<close>: started at 0 and accumulated in index order,
  every addition rounded. This is what a summing loop of the source computes.
\<close>

primrec sumUpTo :: "(nat \<Rightarrow> number) \<Rightarrow> nat \<Rightarrow> number" where
  "sumUpTo f 0 = Val 0"
| "sumUpTo f (Suc k) = sumUpTo f k + f k"

section \<open>Properties of the rounding\<close>

lemma bits_bounds: "0 < n \<Longrightarrow> 2 ^ (bits n - 1) \<le> n \<and> n < 2 ^ bits n"
proof (induction n rule: bits.induct)
  case (1 n)
  show ?case
  proof (cases "n div 2 = 0")
    case True
    with 1 have "n = 1" by (auto simp add: div_eq_0_iff)
    then show ?thesis by (simp add: bits.simps)
  next
    case False
    then have pos: "0 < n div 2" by simp
    have b: "bits n = Suc (bits (n div 2))" using "1.prems" by (subst bits.simps) simp
    have bp: "0 < bits (n div 2)" using pos by (subst bits.simps) simp
    from "1.IH" "1.prems" pos
    have ih: "2 ^ (bits (n div 2) - 1) \<le> n div 2" "n div 2 < 2 ^ bits (n div 2)" by simp_all
    have "2 ^ (bits n - 1) = 2 * 2 ^ (bits (n div 2) - 1)"
      using bp by (simp add: b power_Suc [symmetric] del: power_Suc)
    also have "\<dots> \<le> 2 * (n div 2)" using ih(1) by simp
    also have "\<dots> \<le> n" by simp
    finally have lo: "2 ^ (bits n - 1) \<le> n" .
    have "n < 2 * (n div 2) + 2" by presburger
    also have "\<dots> \<le> 2 * 2 ^ bits (n div 2)" using ih(2) by simp
    finally have hi: "n < 2 ^ bits n" by (simp add: b)
    from lo hi show ?thesis by simp
  qed
qed

lemma ilog2_bounds:
  assumes "0 < x"
  shows "2 powi ilog2 x \<le> x \<and> x < 2 powi (ilog2 x + 1)"
proof (cases "1 \<le> x")
  case True
  define n where "n = nat \<lfloor>x\<rfloor>"
  have n1: "0 < n" using True by (simp add: n_def)
  have rn: "real n = of_int \<lfloor>x\<rfloor>" using True by (simp add: n_def)
  have nx: "real n \<le> x" "x < real n + 1"
    unfolding rn using floor_correct [of x] by simp_all
  from bits_bounds [OF n1] have b: "2 ^ (bits n - 1) \<le> n" "n < 2 ^ bits n" by simp_all
  have bp: "0 < bits n" using n1 by (subst bits.simps) simp
  have e: "ilog2 x = int (bits n) - 1" using True by (simp add: ilog2_def n_def)
  have e1: "ilog2 x = int (bits n - 1)" using bp e by simp
  have "(2::real) powi ilog2 x = 2 ^ (bits n - 1)" unfolding e1 by simp
  also have "\<dots> \<le> real n" using b(1) by (metis of_nat_le_iff of_nat_numeral of_nat_power)
  finally have lo: "2 powi ilog2 x \<le> x" using nx by linarith
  have "real n + 1 \<le> 2 ^ bits n"
    using b(2) by (metis Suc_leI of_nat_Suc of_nat_le_iff of_nat_numeral of_nat_power add.commute)
  moreover have "(2::real) powi (ilog2 x + 1) = 2 ^ bits n" by (simp add: e)
  ultimately have hi: "x < 2 powi (ilog2 x + 1)" using nx by linarith
  from lo hi show ?thesis by simp
next
  case False
  define y where "y = 1 / x"
  have y1: "1 < y" using False assms by (simp add: y_def)
  define m where "m = nat \<lceil>y\<rceil> - 1"
  have c2: "2 \<le> \<lceil>y\<rceil>" using y1 by linarith
  have m1: "0 < m" using c2 by (simp add: m_def)
  have k0: "0 \<le> \<lceil>y\<rceil>" and k1: "1 \<le> nat \<lceil>y\<rceil>" using c2 by linarith+
  have "real m = real (nat \<lceil>y\<rceil>) - 1" unfolding m_def using k1 by (simp only: of_nat_diff of_nat_1)
  also have "real (nat \<lceil>y\<rceil>) = of_int \<lceil>y\<rceil>" using k0 by (rule of_nat_nat)
  finally have rm: "real m = of_int \<lceil>y\<rceil> - 1" .
  have my: "real m < y" "y \<le> real m + 1"
    unfolding rm using ceiling_correct [of y] by simp_all
  from bits_bounds [OF m1] have b: "2 ^ (bits m - 1) \<le> m" "m < 2 ^ bits m" by simp_all
  have e: "ilog2 x = - int (bits m)" using False by (simp add: ilog2_def m_def y_def)
  have "real m + 1 \<le> 2 ^ bits m"
    using b(2) by (metis Suc_leI of_nat_Suc of_nat_le_iff of_nat_numeral of_nat_power add.commute)
  then have yhi: "y \<le> 2 ^ bits m" using my by linarith
  have "(2::real) ^ (bits m - 1) \<le> real m"
    using b(1) by (metis of_nat_le_iff of_nat_numeral of_nat_power)
  then have ylo: "2 ^ (bits m - 1) < y" using my by linarith
  have bp: "0 < bits m" using m1 by (subst bits.simps) simp
  have xy: "x = 1 / y" using assms by (simp add: y_def)
  have "(2::real) powi ilog2 x = 1 / 2 ^ bits m"
    unfolding e by (simp add: power_int_minus field_simps)
  also have "\<dots> \<le> 1 / y"
    by (rule divide_left_mono [OF yhi]) (use y1 in simp_all)
  finally have lo: "2 powi ilog2 x \<le> x" using xy by simp
  have "ilog2 x + 1 = - int (bits m - 1)" using bp e by simp
  then have "(2::real) powi (ilog2 x + 1) = 1 / 2 ^ (bits m - 1)"
    by (simp add: power_int_minus field_simps)
  moreover have "1 / y < 1 / 2 ^ (bits m - 1)"
    by (rule divide_strict_left_mono [OF ylo]) (use y1 in simp_all)
  ultimately have hi: "x < 2 powi (ilog2 x + 1)" using xy by simp
  from lo hi show ?thesis by simp
qed

lemma pow2_less_cancel: "(2::real) powi a < 2 powi b \<Longrightarrow> a < b"
proof (rule ccontr)
  assume l: "(2::real) powi a < 2 powi b" and "\<not> a < b"
  then have "b \<le> a" by simp
  then have "(2::real) powi b \<le> 2 powi a" by (intro power_int_increasing) simp_all
  with l show False by simp
qed

lemma ilog2_unique:
  assumes "2 powi e \<le> x" and "x < 2 powi (e + 1)"
  shows "ilog2 x = e"
proof -
  have x0: "0 < x" using assms(1) by (smt (verit) zero_less_power_int)
  from ilog2_bounds [OF x0] have b: "2 powi ilog2 x \<le> x" "x < 2 powi (ilog2 x + 1)" by simp_all
  have "(2::real) powi e < 2 powi (ilog2 x + 1)" using assms(1) b(2) by simp
  then have 1: "e < ilog2 x + 1" by (rule pow2_less_cancel)
  have "(2::real) powi ilog2 x < 2 powi (e + 1)" using assms(2) b(1) by simp
  then have 2: "ilog2 x < e + 1" by (rule pow2_less_cancel)
  from 1 2 show ?thesis by simp
qed

lemma ilog2_mono:
  assumes "0 < x" and "x \<le> y"
  shows "ilog2 x \<le> ilog2 y"
proof -
  have y0: "0 < y" using assms by simp
  from ilog2_bounds [OF assms(1)] ilog2_bounds [OF y0]
  have "(2::real) powi ilog2 x < 2 powi (ilog2 y + 1)" using assms(2) by simp
  then have "ilog2 x < ilog2 y + 1" by (rule pow2_less_cancel)
  then show ?thesis by simp
qed


lemma roundEven_near: "\<bar>of_int (roundEven q) - q\<bar> \<le> 1 / 2"
  using floor_correct [of q] by (auto simp add: roundEven_def Let_def)

lemma roundEven_of_int [simp]: "roundEven (of_int k) = k"
  by (simp add: roundEven_def)

lemma roundEven_mono:
  assumes "x \<le> y"
  shows "roundEven x \<le> roundEven y"
proof (rule ccontr)
  assume "\<not> roundEven x \<le> roundEven y"
  then have "roundEven y + 1 \<le> roundEven x" by simp
  then have l: "real_of_int (roundEven y) + 1 \<le> real_of_int (roundEven x)"
    by (metis of_int_1 of_int_add of_int_le_iff)
  from roundEven_near [of x] roundEven_near [of y] l assms have "x = y" by linarith
  with \<open>\<not> roundEven x \<le> roundEven y\<close> show False by simp
qed

lemma roundEven_le_int: "q \<le> of_int k \<Longrightarrow> roundEven q \<le> k"
  using roundEven_mono [of q "of_int k"] by simp

lemma roundEven_ge_int: "of_int k \<le> q \<Longrightarrow> k \<le> roundEven q"
  using roundEven_mono [of "of_int k" q] by simp

lemma ulpExponent_minus [simp]: "ulpExponent (- x) = ulpExponent x"
  by (simp add: ulpExponent_def)

lemma nearest64_minus: "nearest64 (- x) = - nearest64 x"
  by (simp add: nearest64_def)

lemma nearest64_nonneg:
  assumes "0 \<le> x"
  shows "0 \<le> nearest64 x"
proof (cases "x = 0")
  case True
  then show ?thesis by (simp add: nearest64_def)
next
  case False
  then have x: "0 < x" using assms by simp
  have "0 \<le> \<bar>x\<bar> / 2 powi ulpExponent x" by simp
  then have "0 \<le> roundEven (\<bar>x\<bar> / 2 powi ulpExponent x)"
    using roundEven_ge_int [of 0] by simp
  then show ?thesis using x by (simp add: nearest64_def)
qed

lemma ulpExponent_mono:
  assumes "0 < x" and "x \<le> y"
  shows "ulpExponent x \<le> ulpExponent y"
  using ilog2_mono [of "\<bar>x\<bar>" "\<bar>y\<bar>"] assms by (simp add: ulpExponent_def)

lemma nearest64_pos_mono:
  assumes x: "0 < x" and xy: "x \<le> y"
  shows "nearest64 x \<le> nearest64 y"
proof -
  have y: "0 < y" using assms by simp
  define ex where "ex = ulpExponent x"
  define ey where "ey = ulpExponent y"
  define rx where "rx = roundEven (x / 2 powi ex)"
  define ry where "ry = roundEven (y / 2 powi ey)"
  have nx: "nearest64 x = of_int rx * 2 powi ex"
    using x by (simp add: nearest64_def rx_def ex_def)
  have ny: "nearest64 y = of_int ry * 2 powi ey"
    using y by (simp add: nearest64_def ry_def ey_def)
  have le: "ex \<le> ey" unfolding ex_def ey_def using x xy by (rule ulpExponent_mono)
  show ?thesis
  proof (cases "ex = ey")
    case True
    have "x / 2 powi ey \<le> y / 2 powi ey" using xy by (simp add: divide_right_mono)
    then have "rx \<le> ry" unfolding rx_def ry_def True by (rule roundEven_mono)
    then have "real_of_int rx * 2 powi ey \<le> real_of_int ry * 2 powi ey"
      by (simp add: mult_right_mono)
    then show ?thesis by (simp add: nx ny True)
  next
    case False
    then have lt: "ex < ey" using le by simp
    define k where "k = ilog2 y"
    have ay: "\<bar>y\<bar> = y" "\<bar>x\<bar> = x" using x y by simp_all
    have ey_k: "ey = k - 52"
      using lt unfolding ey_def ex_def ulpExponent_def k_def ay by linarith
    have "ilog2 x - 52 \<le> ex" unfolding ex_def ulpExponent_def ay by linarith
    then have lk: "ilog2 x + 1 \<le> k" using lt ey_k by simp
    from ilog2_bounds [OF y] have ylo: "2 powi k \<le> y" by (simp add: k_def)
    from ilog2_bounds [OF x] have "x < 2 powi (ilog2 x + 1)" by simp
    also have "\<dots> \<le> 2 powi k" using lk by (intro power_int_increasing) simp_all
    finally have xhi: "x \<le> 2 powi k" by simp
    have p52: "(2::real) powi k / 2 powi ey = of_int (2 ^ 52)"
      unfolding ey_k by (simp add: power_int_diff)
    have "of_int (2 ^ 52) \<le> y / 2 powi ey"
      unfolding p52 [symmetric] using ylo by (simp add: divide_right_mono)
    then have "2 ^ 52 \<le> ry" unfolding ry_def by (rule roundEven_ge_int)
    then have "real_of_int (2 ^ 52) \<le> real_of_int ry" by (simp only: of_int_le_iff)
    then have A: "real_of_int (2 ^ 52) * 2 powi ey \<le> real_of_int ry * 2 powi ey"
      by (rule mult_right_mono) simp
    have B: "real_of_int (2 ^ 52) * 2 powi ey = 2 powi k"
      unfolding p52 [symmetric] by simp
    have lo: "2 powi k \<le> nearest64 y" using A unfolding B ny .
    have d: "0 \<le> k - ex" using lt ey_k by simp
    have "(2::real) powi k / 2 powi ex = 2 powi (k - ex)" by (simp add: power_int_diff)
    also have "\<dots> = 2 ^ nat (k - ex)" using d by (rule power_int_nonneg_exp)
    also have "\<dots> = of_int (2 ^ nat (k - ex))" by simp
    finally have pd: "(2::real) powi k / 2 powi ex = of_int (2 ^ nat (k - ex))" .
    have "x / 2 powi ex \<le> of_int (2 ^ nat (k - ex))"
      unfolding pd [symmetric] using xhi by (simp add: divide_right_mono)
    then have "rx \<le> 2 ^ nat (k - ex)" unfolding rx_def by (rule roundEven_le_int)
    then have "real_of_int rx \<le> real_of_int (2 ^ nat (k - ex))" by (simp only: of_int_le_iff)
    then have C: "real_of_int rx * 2 powi ex \<le> real_of_int (2 ^ nat (k - ex)) * 2 powi ex"
      by (rule mult_right_mono) simp
    have E: "real_of_int (2 ^ nat (k - ex)) * 2 powi ex = 2 powi k"
      unfolding pd [symmetric] by simp
    have hi: "nearest64 x \<le> 2 powi k" using C unfolding E nx .
    from lo hi show ?thesis by simp
  qed
qed

lemma nearest64_mono:
  assumes "x \<le> y"
  shows "nearest64 x \<le> nearest64 y"
proof -
  consider "0 < x" | "x \<le> 0" "0 \<le> y" | "y < 0" by linarith
  then show ?thesis
  proof cases
    case 1
    then show ?thesis using assms by (rule nearest64_pos_mono)
  next
    case 2
    have "0 \<le> nearest64 (- x)" using 2(1) by (intro nearest64_nonneg) simp
    then have "nearest64 x \<le> 0" by (simp add: nearest64_minus)
    moreover have "0 \<le> nearest64 y" using 2(2) by (rule nearest64_nonneg)
    ultimately show ?thesis by simp
  next
    case 3
    have "nearest64 (- y) \<le> nearest64 (- x)"
      using 3 assms by (intro nearest64_pos_mono) simp_all
    then show ?thesis by (simp add: nearest64_minus)
  qed
qed

lemma round64_not_NaN [simp]: "round64 x \<noteq> NaN"
  by (simp add: round64_def Let_def)

lemma round64_zero [simp]: "round64 0 = Val 0"
  by (simp add: round64_def nearest64_def)

lemma round64_mono:
  assumes "x \<le> y"
  shows "num_le (round64 x) (round64 y)"
proof -
  have m: "nearest64 x \<le> nearest64 y" using assms by (rule nearest64_mono)
  have px: "0 \<le> nearest64 x" if "0 < x" using that by (intro nearest64_nonneg) simp
  have py: "nearest64 y \<le> 0" if "\<not> 0 < y"
  proof -
    have "0 \<le> nearest64 (- y)" using that by (intro nearest64_nonneg) simp
    then show ?thesis by (simp add: nearest64_minus)
  qed
  have nx: "nearest64 x \<le> 0" if "\<not> 0 < x"
  proof -
    have "0 \<le> nearest64 (- x)" using that by (intro nearest64_nonneg) simp
    then show ?thesis by (simp add: nearest64_minus)
  qed
  show ?thesis
    unfolding round64_def Let_def
    using m assms px py nx by (auto simp add: abs_real_def split: if_splits)
qed

lemma round64_nonneg:
  assumes "0 \<le> x"
  shows "num_le (Val 0) (round64 x)"
  using round64_mono [OF assms] by simp

text \<open>The equations that evaluate a rounding at a concrete value.\<close>

lemmas r64 = round64_def nearest64_def ulpExponent_def ilog2_def roundEven_def Let_def bits.simps

lemma round64_literal: "round64 0.7 = Val (3152519739159347 / 2 ^ 52)"
  by (simp add: r64)

text \<open>Powers of two in the range of the doubles are doubles; half the least one rounds to 0.\<close>

lemma ilog2_pow2 [simp]: "ilog2 (2 powi e) = e"
  by (rule ilog2_unique) (simp_all add: power_int_strict_increasing)

lemma round64_pow2:
  assumes "- 1074 \<le> e" and "e < 1024"
  shows "round64 (2 powi e) = Val (2 powi e)"
proof -
  define u where "u = ulpExponent (2 powi e)"
  have u: "u = max (e - 52) (- 1074)" by (simp add: u_def ulpExponent_def)
  have ue: "u \<le> e" using assms u by linarith
  have "(2::real) powi e / 2 powi u = 2 powi (e - u)" by (simp add: power_int_diff)
  also have "\<dots> = 2 ^ nat (e - u)" using ue by (intro power_int_nonneg_exp) simp
  also have "\<dots> = of_int (2 ^ nat (e - u))" by simp
  finally have q: "(2::real) powi e / 2 powi u = of_int (2 ^ nat (e - u))" .
  have "nearest64 (2 powi e) = of_int (2 ^ nat (e - u)) * 2 powi u"
    by (simp add: nearest64_def u_def [symmetric] q del: of_int_power)
  also have "\<dots> = 2 powi e" unfolding q [symmetric] by simp
  finally have n: "nearest64 (2 powi e) = 2 powi e" .
  have "(2::real) powi e < 2 powi 1024" using assms(2) by (intro power_int_strict_increasing) simp_all
  then have "\<not> 2 ^ 1024 \<le> \<bar>(2::real) powi e\<bar>" by simp
  then show ?thesis by (simp add: round64_def n)
qed

lemma round64_tiny:
  assumes "0 \<le> x" and "2 * x \<le> t" and t: "t = 2 powi (- 1074)"
  shows "round64 x = Val 0"
proof (cases "x = 0")
  case True
  then show ?thesis by simp
next
  case False
  then have x: "0 < x" using assms by simp
  have t0: "0 < t" unfolding t by (rule zero_less_power_int) simp
  have "x < t" using assms(2) x by linarith
  then have "(2::real) powi ilog2 x < 2 powi (- 1074)"
    using ilog2_bounds [OF x] unfolding t by linarith
  then have "ilog2 x < - 1074" by (rule pow2_less_cancel)
  then have u: "ulpExponent x = - 1074" using x by (simp add: ulpExponent_def)
  have q: "x / t \<le> 1 / 2" using assms(2) t0 by (simp add: field_simps)
  have q0: "0 \<le> x / t" using x t0 by simp
  have f: "\<lfloor>x / t\<rfloor> = 0" using q q0 by linarith
  have r: "roundEven (x / t) = 0"
    unfolding roundEven_def Let_def f using q by auto
  have "nearest64 x = 0"
    unfolding nearest64_def u t [symmetric] using x by (simp add: r)
  then show ?thesis by (simp add: round64_def)
qed

lemma pow2_half: "(2::real) powi e / 2 = 2 powi (e - 1)"
  by (simp add: power_int_diff)

section \<open>Properties of the signal classifier\<close>





text \<open>
  Claim C10. The strength of a signal is meant to lie between 0 and 100. For a channel
  of the least positive width, \<open>2 powi - 1074\<close>, half the width rounds to 0 and the
  normalized position is 0 / 0: the strength is NaN.
\<close>

theorem generateSignal_underflow:
  "num_gt (Val (2 powi (- 1074)) - Val 0) (Val 0) \<and>
   generateSignal (Val 0) (Val 0) (Val (2 powi (- 1074))) (Val 0) = (HOLD, NaN)"
proof -
  define t :: real where "t = 2 powi (- 1074)"
  have t0: "0 < t" unfolding t_def by (rule zero_less_power_int) simp
  have rt: "round64 t = Val t" unfolding t_def by (rule round64_pow2) simp_all
  have w: "Val t - Val 0 = Val t" by (simp add: minus_number_def rt)
  have "round64 (t / 2) = Val 0" by (rule round64_tiny [of _ t]) (use t0 in \<open>simp_all add: t_def\<close>)
  then have h: "Val t / Val 2 = Val 0" by simp
  have d: "Val 0 - Val 0 = Val 0" by (simp add: minus_number_def)
  have g: "num_gt (Val t) (Val 0)" using t0 by (simp add: num_gt_def num_ge_def)
  have e: "generateSignal (Val 0) (Val 0) (Val t) (Val 0) = (HOLD, NaN)"
    unfolding generateSignal_def Let_def w h d
    by (simp add: num_ge_def minus_number_def round64_literal)
  show ?thesis unfolding t_def [symmetric] w using g e by simp
qed

section \<open>The flat series\<close>

text \<open>
  Claim C2. On the prices \<open>[10, 10, 10, 10, 10]\<close> with the default multiplier the analysis
  returns slope 0, intercept 10, R-squared 0, standard deviation 0, both bands equal to
  10 at every index and the signal HOLD. The channel width is 0, so the normalized
  position is 0 / 0: the signal strength is NaN, and so are the two distances.
\<close>

theorem calculateRegressionChannel_flat:
  "calculateRegressionChannel (map Val [10, 10, 10, 10, 10]) None =
     Inr \<lparr>regression = \<lparr>slope = Val 0, intercept = Val 10, rSquared = Val 0,
                          predictions = [Val 10, Val 10, Val 10, Val 10, Val 10]\<rparr>,
          upperBand = [Val 10, Val 10, Val 10, Val 10, Val 10],
          lowerBand = [Val 10, Val 10, Val 10, Val 10, Val 10],
          middleLine = [Val 10, Val 10, Val 10, Val 10, Val 10],
          standardDeviation = Val 0,
          currentPrice = Val 10,
          predictedPrice = Val 10,
          signal = HOLD,
          signalStrength = NaN,
          distanceFromUpper = NaN,
          distanceFromLower = NaN,
          channelWidth = Val 0\<rparr>"
  by (simp add: calculateRegressionChannel_def calculateLinearRegression_def
      calculateStandardDeviation_def calculateChannelBands_def generateSignal_def Let_def
      sumsStep_def ssStep_def sqDiffStep_def upt_rec num_ge_def minus_number_def r64)

section \<open>Errors\<close>

lemma calculateLinearRegression_ok:
  assumes "xs \<noteq> []" "length xs = length ys"
  shows "\<exists>r. calculateLinearRegression xs ys = Inr r \<and>
             predictions r = map (\<lambda>x. slope r * x + intercept r) xs"
  using assms by (auto simp add: calculateLinearRegression_def Let_def split: prod.splits)

lemma calculateLinearRegression_error:
  "calculateLinearRegression xs ys = Inl e \<longleftrightarrow> e = InvalidInput \<and> (length xs \<noteq> length ys \<or> xs = [])"
  by (auto simp add: calculateLinearRegression_def Let_def split: prod.splits)

lemma calculateStandardDeviation_ok:
  assumes "as \<noteq> []" "length as = length ps"
  shows "\<exists>sd. calculateStandardDeviation as ps = Inr sd"
  using assms by (auto simp add: calculateStandardDeviation_def Let_def)

lemma calculateRegressionChannel_ok:
  assumes "2 \<le> length prices"
  shows "\<exists>r. calculateRegressionChannel prices m = Inr r"
proof -
  let ?xs = "map (\<lambda>i. Val (real i)) [0..<length prices]"
  have ne: "prices \<noteq> []" using assms by auto
  have "?xs \<noteq> []" "length ?xs = length prices" using ne by simp_all
  from calculateLinearRegression_ok [OF this] obtain r
    where r: "calculateLinearRegression ?xs prices = Inr r"
      and p: "predictions r = map (\<lambda>x. slope r * x + intercept r) ?xs" by blast
  have "length prices = length (predictions r)" by (simp add: p)
  from calculateStandardDeviation_ok [OF ne this] obtain sd
    where sd: "calculateStandardDeviation prices (predictions r) = Inr sd" by blast
  show ?thesis
    using assms by (simp add: calculateRegressionChannel_def Let_def r sd split: prod.splits)
qed

text \<open>
  Claim C4. The analysis fails with \<open>InsufficientData\<close> exactly when there are fewer than
  two prices, and the fit fails with \<open>InvalidInput\<close> exactly when its two arrays differ in
  length or are empty; on every other input each returns a result. This holds for all
  numbers, the special values included.
\<close>

theorem error_conditions:
  "(calculateRegressionChannel prices m = Inl InsufficientData \<longleftrightarrow> length prices < 2) \<and>
   (2 \<le> length prices \<longrightarrow> (\<exists>r. calculateRegressionChannel prices m = Inr r)) \<and>
   (calculateLinearRegression xs ys = Inl InvalidInput \<longleftrightarrow> length xs \<noteq> length ys \<or> xs = []) \<and>
   (length xs = length ys \<and> xs \<noteq> [] \<longrightarrow> (\<exists>r. calculateLinearRegression xs ys = Inr r))"
proof -
  have a: "calculateRegressionChannel prices m = Inl InsufficientData" if "length prices < 2"
    using that by (simp add: calculateRegressionChannel_def)
  have b: "\<exists>r. calculateRegressionChannel prices m = Inr r" if "2 \<le> length prices"
    using that by (rule calculateRegressionChannel_ok)
  have c: "calculateRegressionChannel prices m = Inl InsufficientData \<longleftrightarrow> length prices < 2"
  proof (cases "length prices < 2")
    case True then show ?thesis using a by simp
  next
    case False
    then obtain r where "calculateRegressionChannel prices m = Inr r" using b by force
    with False show ?thesis by simp
  qed
  show ?thesis
    using b c calculateLinearRegression_error [of xs ys InvalidInput]
      calculateLinearRegression_ok [of xs ys] by blast
qed

theorem error_conditions_witness:
  "calculateRegressionChannel [Val 42] None = Inl InsufficientData \<and>
   (\<exists>r. calculateRegressionChannel [Val 1, Val 2] None = Inr r) \<and>
   calculateLinearRegression [Val 1, Val 2] [Val 1] = Inl InvalidInput \<and>
   (\<exists>r. calculateLinearRegression [Val 0, Val 1] [Val 1, Val 3] = Inr r)"
  using error_conditions [of "[Val 42]" None "[Val 1, Val 2]" "[Val 1]"]
    error_conditions [of "[Val 1, Val 2]" None "[Val 0, Val 1]" "[Val 1, Val 3]"]
  by simp

section \<open>Properties of the equation formatter\<close>

lemma isDigitChar_digitChar: "k < 10 \<Longrightarrow> isDigitChar (digitChar k)"
  unfolding isDigitChar_def digitChar_def by (rule nth_mem) simp

lemma decimalDigits_digits: "decimalDigits n \<noteq> [] \<and> list_all isDigitChar (decimalDigits n)"
proof (induction n rule: decimalDigits.induct)
  case (1 n)
  show ?case
  proof (cases "n < 10")
    case True
    then show ?thesis by (simp add: decimalDigits.simps [of n] isDigitChar_digitChar)
  next
    case False
    with 1 show ?thesis
      by (simp add: decimalDigits.simps [of n] isDigitChar_digitChar)
  qed
qed

lemma hasDecimals_append:
  assumes "a \<noteq> []" and "list_all isDigitChar a" and "list_all isDigitChar b"
  shows "hasDecimals (length b) (a @ ''.'' @ b)"
proof -
  have p2: "length (a @ ''.'' @ b) - length b = Suc (length a)" by simp
  have l: "length b + 2 \<le> length (a @ ''.'' @ b)" using assms(1) by (cases a) simp_all
  have c: "(a @ ''.'' @ b) ! length a = CHR ''.''" by (simp add: nth_append)
  have t: "take (length a) (a @ ''.'' @ b) = a" by simp
  have d: "drop (Suc (length a)) (a @ ''.'' @ b) = b" by simp
  show ?thesis
    unfolding hasDecimals_def p2 using l assms(2,3) c t d by simp
qed

lemma fixedDigits_hasDecimals:
  assumes "0 < f"
  shows "hasDecimals f (fixedDigits f x)"
proof -
  define m where "m = decimalDigits (nat \<lfloor>x * 10 ^ f + 1 / 2\<rfloor>)"
  define w where "w = (if length m \<le> f then replicate (f + 1 - length m) (CHR ''0'') @ m else m)"
  define a where "a = take (length w - f) w"
  define b where "b = drop (length w - f) w"
  have m: "list_all isDigitChar m"
    using decimalDigits_digits [of "nat \<lfloor>x * 10 ^ f + 1 / 2\<rfloor>"] unfolding m_def by blast
  have z: "isDigitChar (CHR ''0'')" by (simp add: isDigitChar_def)
  have w1: "f < length w" unfolding w_def by (cases "length m \<le> f") simp_all
  have w2: "list_all isDigitChar w"
    unfolding w_def using m z by (cases "length m \<le> f") (simp_all add: list_all_iff)
  have a1: "a \<noteq> []" unfolding a_def using w1 by (cases w) simp_all
  have a2: "list_all isDigitChar a"
    unfolding a_def using w2 by (auto simp add: list_all_iff dest: in_set_takeD)
  have b2: "list_all isDigitChar b"
    unfolding b_def using w2 by (auto simp add: list_all_iff dest: in_set_dropD)
  have bl: "length b = f" unfolding b_def using w1 by simp
  have "fixedDigits f x = a @ ''.'' @ b"
    unfolding fixedDigits_def Let_def m_def [symmetric] w_def [symmetric] a_def b_def
    using assms by simp
  then show ?thesis using hasDecimals_append [OF a1 a2 b2] bl by simp
qed

text \<open>
  Claim C8, as amended. For a real slope and intercept below \<open>10 ^ 21\<close> in magnitude the
  result is \<open>y = \<close>, the sign of the slope (\<open>+\<close> or \<open>-\<close>), its magnitude with exactly 4
  decimal places, \<open>x \<close>, then \<open>+ \<close> for an intercept that is not negative and \<open> -\<close> for a
  negative one, and the magnitude of the intercept with exactly 2 decimal places. The
  sign of the slope stands right before its digits; a space separates the \<open>+\<close> of the
  intercept from its digits.
\<close>

theorem formatRegressionEquation_shape:
  fixes s i :: real
  assumes "\<bar>s\<bar> < 10 ^ 21" and "\<bar>i\<bar> < 10 ^ 21"
  shows "formatRegressionEquation bigToString (Val s) (Val i) =
           ''y = '' @ (if s < 0 then ''-'' else ''+'') @ fixedDigits 4 \<bar>s\<bar> @ ''x ''
             @ (if i < 0 then '' -'' else ''+ '') @ fixedDigits 2 \<bar>i\<bar> \<and>
         hasDecimals 4 (fixedDigits 4 \<bar>s\<bar>) \<and> hasDecimals 2 (fixedDigits 2 \<bar>i\<bar>)"
proof -
  have a: "toFixed bigToString (Val v) f = (if v < 0 then ''-'' else '''') @ fixedDigits f \<bar>v\<bar>"
    if "\<bar>v\<bar> < 10 ^ 21" for v :: real and f
    using that by (simp add: toFixed_def Let_def abs_real_def not_le)
  have "formatRegressionEquation bigToString (Val s) (Val i) =
           ''y = '' @ (if s < 0 then ''-'' else ''+'') @ fixedDigits 4 \<bar>s\<bar> @ ''x ''
             @ (if i < 0 then '' -'' else ''+ '') @ fixedDigits 2 \<bar>i\<bar>"
    by (simp add: formatRegressionEquation_def Let_def num_ge_def a [OF assms(1)] a [OF assms(2)] not_le)
  then show ?thesis
    using fixedDigits_hasDecimals [of 4] fixedDigits_hasDecimals [of 2] by simp
qed

theorem formatRegressionEquation_shape_witness:
  "\<bar>- 1.23456 :: real\<bar> < 10 ^ 21 \<and> \<bar>- 0.005 :: real\<bar> < 10 ^ 21 \<and>
   (\<forall>bigToString. formatRegressionEquation bigToString (Val (- 1.23456)) (Val (- 0.005)) =
      ''y = -1.2346x  -0.01'')"
proof -
  have h1: "\<bar>- 1.23456 :: real\<bar> < 10 ^ 21" and h2: "\<bar>- 0.005 :: real\<bar> < 10 ^ 21"
    by simp_all
  have d1: "fixedDigits 4 \<bar>- 1.23456\<bar> = ''1.2346''"
    by (simp add: fixedDigits_def Let_def decimalDigits.simps digitChar_def)
  have d2: "fixedDigits 2 \<bar>- 0.005\<bar> = ''0.01''"
    by (simp add: fixedDigits_def Let_def decimalDigits.simps digitChar_def)
  have "formatRegressionEquation bigToString (Val (- 1.23456)) (Val (- 0.005)) =
      ''y = -1.2346x  -0.01''" for bigToString
    using formatRegressionEquation_shape [OF h1 h2, of bigToString] unfolding d1 d2 by simp
  with h1 h2 show ?thesis by blast
qed

text \<open>
  Claim C8 as stated puts the sign of the intercept right before its digits. For slope 1
  and intercept 2 the source returns \<open>y = +1.0000x + 2.00\<close>, with a space after the
  second \<open>+\<close>, where the format of the specification gives \<open>y = +1.0000x +2.00\<close>.
\<close>

theorem formatRegressionEquation_counterexample:
  "(\<forall>bigToString. formatRegressionEquation bigToString (Val 1) (Val 2) = ''y = +1.0000x + 2.00'') \<and>
   specEquation 1 2 = ''y = +1.0000x +2.00''"
  by (simp add: formatRegressionEquation_def toFixed_def specEquation_def specSigned_def
      fixedDigits_def Let_def num_ge_def decimalDigits.simps digitChar_def)

section \<open>Arithmetic on numbers that are not negative\<close>

lemma Val_minus [simp]: "Val a - Val b = round64 (a - b)"
  by (simp add: minus_number_def)

lemma round64_nonneg_cases:
  assumes "0 \<le> x"
  obtains y where "round64 x = Val y" and "0 \<le> y" | "round64 x = PosInf"
  using round64_nonneg [OF assms] by (cases "round64 x") simp_all


lemma nonneg_times:
  assumes "num_le (Val 0) a" and "num_le (Val 0) b" and "a * b \<noteq> NaN"
  shows "num_le (Val 0) (a * b)"
proof (cases a)
  case (Val x)
  show ?thesis
  proof (cases b)
    case (Val y)
    with assms \<open>a = Val x\<close> have "0 \<le> x * y" by simp
    then show ?thesis unfolding \<open>a = Val x\<close> Val times_number.simps by (rule round64_nonneg)
  qed (use assms Val in \<open>simp_all split: if_splits\<close>)
qed (use assms in \<open>cases b; simp split: if_splits\<close>)+




lemma band_order:
  assumes "num_le (Val 0) t" and "p + t \<noteq> NaN" and "p - t \<noteq> NaN"
  shows "num_le (p - t) (p + t)"
proof (cases t)
  case (Val y)
  with assms(1) have y: "0 \<le> y" by simp
  show ?thesis
  proof (cases p)
    case (Val x)
    have "x - y \<le> x + y" using y by simp
    then have "num_le (round64 (x - y)) (round64 (x + y))" by (rule round64_mono)
    then show ?thesis by (simp add: Val \<open>t = Val y\<close>)
  qed (use assms \<open>t = Val y\<close> in \<open>simp_all add: minus_number_def\<close>)
qed (use assms in \<open>cases p; simp add: minus_number_def\<close>)+

section \<open>The loops as running sums\<close>




lemma fold_sumsStep:
  "fold (sumsStep xs ys) [0..<n] (Val 0, Val 0, Val 0, Val 0, Val 0) =
     (sumUpTo (\<lambda>i. xs ! i) n, sumUpTo (\<lambda>i. ys ! i) n, sumUpTo (\<lambda>i. xs ! i * ys ! i) n,
      sumUpTo (\<lambda>i. xs ! i * xs ! i) n, sumUpTo (\<lambda>i. ys ! i * ys ! i) n)"
  by (induction n) (simp_all add: sumsStep_def)

lemma fold_ssStep:
  "fold (ssStep ys m ps) [0..<n] (Val 0, Val 0) =
     (sumUpTo (\<lambda>i. Math_pow2 (ys ! i - m)) n, sumUpTo (\<lambda>i. Math_pow2 (ys ! i - ps ! i)) n)"
  by (induction n) (simp_all add: ssStep_def)


section \<open>Properties of the channel builder\<close>

text \<open>
  Claim C6, as amended. For every predictions sequence, standard deviation and
  multiplier (the default is 2) both bands have the length of the predictions, and at
  every index the upper band is \<open>prediction + multiplier * stdDev\<close> and the lower band is
  \<open>prediction - multiplier * stdDev\<close>, each rounded. When the standard deviation and the
  multiplier are not negative, the upper band is at least the lower band wherever neither
  is NaN, and neither is NaN where the prediction, the standard deviation and the
  multiplier are finite.
\<close>

theorem channel_bands_order:
  "let M = (case mo of None \<Rightarrow> Val 2 | Some k \<Rightarrow> k);
       (ub, lb) = calculateChannelBands preds sd mo
   in length ub = length preds \<and> length lb = length preds \<and>
      (\<forall>i<length preds.
         ub ! i = preds ! i + M * sd \<and> lb ! i = preds ! i - M * sd \<and>
         (num_ge sd (Val 0) \<and> num_ge M (Val 0) \<and> ub ! i \<noteq> NaN \<and> lb ! i \<noteq> NaN
            \<longrightarrow> num_ge (ub ! i) (lb ! i)) \<and>
         ((\<exists>x s m. preds ! i = Val x \<and> sd = Val s \<and> M = Val m \<and> 0 \<le> s \<and> 0 \<le> m)
            \<longrightarrow> num_ge (ub ! i) (lb ! i)))"
proof -
  define M where "M = (case mo of None \<Rightarrow> Val 2 | Some k \<Rightarrow> k)"
  have bands: "calculateChannelBands preds sd mo =
      (map (\<lambda>pred. pred + M * sd) preds, map (\<lambda>pred. pred - M * sd) preds)"
    by (simp add: calculateChannelBands_def Let_def M_def)
  have ord: "num_ge (p + M * sd) (p - M * sd)"
    if "num_ge sd (Val 0)" "num_ge M (Val 0)" "p + M * sd \<noteq> NaN" "p - M * sd \<noteq> NaN" for p
  proof -
    have "M * sd \<noteq> NaN" using that(3) by (cases p) auto
    then have "num_le (Val 0) (M * sd)"
      using that(1,2) by (intro nonneg_times) (simp_all add: num_ge_def)
    then show ?thesis unfolding num_ge_def using that(3,4) by (rule band_order)
  qed
  have fin: "num_ge (Val x + Val m * Val s) (Val x - Val m * Val s)"
    if "0 \<le> s" "0 \<le> m" for x s m
  proof -
    have "0 \<le> m * s" using that by simp
    then have t: "num_le (Val 0) (Val m * Val s)" unfolding times_number.simps by (rule round64_nonneg)
    have "Val x + Val m * Val s \<noteq> NaN" "Val x - Val m * Val s \<noteq> NaN"
      using t by (cases "round64 (m * s)"; simp add: minus_number_def)+
    with t show ?thesis unfolding num_ge_def by (intro band_order)
  qed
  show ?thesis
    unfolding Let_def M_def [symmetric] bands prod.case
    using ord fin by (auto simp add: num_ge_def)
qed


theorem channel_bands_order_witness:
  "calculateChannelBands [Val 1, Val 5] (Val 3) None = ([Val 7, Val 11], [Val (- 5), Val (- 1)]) \<and>
   num_ge (Val 11) (Val (- 1))"
proof -
  have e: "calculateChannelBands [Val 1, Val 5] (Val 3) None =
      ([Val 7, Val 11], [Val (- 5), Val (- 1)])"
    by (simp add: calculateChannelBands_def r64)
  have "num_ge (([Val 7, Val 11]) ! 1) (([Val (- 5), Val (- 1)]) ! 1)"
    using channel_bands_order [of None "[Val 1, Val 5]" "Val 3"]
    unfolding Let_def e prod.case option.case by force
  with e show ?thesis by simp
qed

text \<open>
  Claim C6 as stated makes the difference of the bands \<open>2 * multiplier * stdDev\<close>. For the
  prediction 100.3, the standard deviation 0.3 and the default multiplier the bands are
  rounded to 100.89999999999999 and 99.7, their difference is 1.1999999999999886, and
  \<open>2 * 2 * 0.3\<close> is 1.2.
\<close>

theorem channel_width_counterexample:
  "calculateChannelBands [round64 100.3] (round64 0.3) None =
     ([Val (7100206287526297 / 2 ^ 46)], [Val (7015763794513101 / 2 ^ 46)]) \<and>
   Val (7100206287526297 / 2 ^ 46) - Val (7015763794513101 / 2 ^ 46) = Val (21110623253299 / 2 ^ 44) \<and>
   Val 2 * Val 2 * round64 0.3 = Val (5404319552844595 / 2 ^ 52) \<and>
   (21110623253299 / 2 ^ 44 :: real) \<noteq> 5404319552844595 / 2 ^ 52"
  by (simp add: calculateChannelBands_def r64)

section \<open>Properties of the dispersion estimator\<close>




end
